theory Spec2Isabelle
  imports Complex_Main
begin

text \<open>
  The package \<open>goq\<close> decodes an HTML document into a Go value whose struct fields are
  annotated with \<open>goquery\<close> tags. This theory models its annotation functions
  (\<open>selector\<close>, \<open>popVal\<close>, \<open>valFunc\<close>, \<open>preprocess\<close>), its pointer indirection
  (\<open>TypeDeref\<close>, \<open>indirect\<close>) and its decoders (\<open>unmarshalByType\<close> and the functions it
  dispatches to, \<open>childrenUntilMatch\<close>, \<open>UnmarshalSelection\<close>), and proves properties of them.
\<close>

section \<open>Annotation strings (goqueryTag)\<close>

text \<open>
  A Go operation either returns or panics at run time (an index or a slice bound out of
  range, a reflect call that refuses its argument). Every function of the package that
  can panic returns a \<open>result\<close>.
\<close>

datatype 'a result = Panic | Ret 'a

text \<open>
  \<open>strings.Split(s, ",")\<close> and \<open>strings.Join(a, ",")\<close>, for a one-byte separator. Split
  never returns an empty slice: the empty string gives one empty token.
\<close>

fun Split :: "string \<Rightarrow> char \<Rightarrow> string list" where
  "Split [] c = [[]]"
| "Split (x # xs) c =
     (if x = c then [] # Split xs c
      else (case Split xs c of [] \<Rightarrow> [[x]] | w # ws \<Rightarrow> (x # w) # ws))"

fun Join :: "string list \<Rightarrow> char \<Rightarrow> string" where
  "Join [] c = []"
| "Join [x] c = x"
| "Join (x # y # r) c = x @ c # Join (y # r) c"

definition prePfx :: char where
  "prePfx = CHR ''!''"

definition ignoreTag :: string where
  "ignoreTag = ''!ignore''"

text \<open>
  The loop of \<open>selector\<close>: \<open>for len(arr) > offset && arr[offset][0] == prePfx { offset++ }\<close>,
  run on the tokens from \<open>offset\<close> on; the result is the number of tokens it steps over.
  \<open>arr[offset][0]\<close> is a byte index into a string, which panics on the empty token.
\<close>

fun selector_offset :: "string list \<Rightarrow> nat result" where
  "selector_offset [] = Ret 0"
| "selector_offset ([] # r) = Panic"
| "selector_offset ((c # w) # r) =
     (if c = prePfx
      then (case selector_offset r of Panic \<Rightarrow> Panic | Ret n \<Rightarrow> Ret (Suc n))
      else Ret 0)"

text \<open>
  \<open>func (tag goqueryTag) selector(which int) string\<close>. The guard compares \<open>which\<close> with
  the number of all tokens, the index that is read is \<open>which + offset\<close>: it panics when
  that index is past the end.
\<close>

definition selector :: "string \<Rightarrow> nat \<Rightarrow> string result" where
  "selector tag which =
     (let arr = Split tag CHR '','' in
      if int which > int (length arr) - 1 then Ret []
      else (case selector_offset arr of
              Panic \<Rightarrow> Panic
            | Ret offset \<Rightarrow>
                if which + offset < length arr then Ret (arr ! (which + offset)) else Panic))"

text \<open>
  \<open>func (tag goqueryTag) popVal() goqueryTag\<close>: the token at index 1 of the split tag is
  dropped, whatever the tokens before it are.
\<close>

definition popVal :: "string \<Rightarrow> string" where
  "popVal tag =
     (let arr = Split tag CHR '','' in
      if length arr < 2 then tag
      else Join (arr ! 0 # drop 2 arr) CHR '','')"

subsection \<open>Value functions\<close>

text \<open>
  The three value functions of the package: \<open>textVal\<close>, \<open>htmlVal\<close> and the closure that
  \<open>attrFunc(attr)\<close> returns.
\<close>

datatype valFn = textVal | htmlVal | attrFunc string

text \<open>
  \<open>func (tag goqueryTag) valFunc() valFunc\<close> without its memo table: the token read is
  \<open>srcArr[1]\<close> of the split tag. \<open>src[0]\<close> panics on an empty token and
  \<open>src[1 : len(src)-1]\<close> panics on the one-byte token \<open>[\<close>.
\<close>

definition valFunc :: "string \<Rightarrow> valFn result" where
  "valFunc tag =
     (let srcArr = Split tag CHR '','' in
      if length srcArr < 2 then Ret textVal
      else (case srcArr ! 1 of
              [] \<Rightarrow> Panic
            | c # r \<Rightarrow>
                if c = CHR ''[''
                then (if r = [] then Panic else Ret (attrFunc (butlast r)))
                else if c # r = ''html'' then Ret htmlVal
                else if c # r = ''text'' then Ret textVal
                else Ret textVal))"

text \<open>
  The same with the memo table \<open>vfCache\<close> as explicit state: a hit returns the stored
  function, a miss computes it and stores it. A panic leaves the table as it was (the
  store comes after the computation).
\<close>

definition valFunc_cached ::
  "(string \<rightharpoonup> valFn) \<Rightarrow> string \<Rightarrow> valFn result \<times> (string \<rightharpoonup> valFn)" where
  "valFunc_cached vfCache tag =
     (case vfCache tag of
        Some fn \<Rightarrow> (Ret fn, vfCache)
      | None \<Rightarrow>
          (case valFunc tag of
             Panic \<Rightarrow> (Panic, vfCache)
           | Ret f \<Rightarrow> (Ret f, vfCache(tag \<mapsto> f))))"

definition cache_ok :: "(string \<rightharpoonup> valFn) \<Rightarrow> bool" where
  "cache_ok vfCache = (\<forall>tag f. vfCache tag = Some f \<longrightarrow> valFunc tag = Ret f)"

section \<open>The document provider\<close>

text \<open>
  The package works on \<open>*html.Node\<close> trees through \<open>goquery.Selection\<close>. Neither is code
  of this package; they are modelled here as far as the package uses them. A node is its
  subtree; \<open>nid\<close> stands for the identity of the pointer, so that two nodes are the same
  pointer exactly when they are equal.
\<close>

datatype nodeType = ElementNode | TextNode | OtherNode

datatype node =
  Node (nid: nat) (ntype: nodeType) (Data: string) (Attr: "(string \<times> string) list")
    (kids: "node list")

text \<open>
  A \<open>goquery.Selection\<close>: its exported slice \<open>Nodes\<close> and the selection it was derived
  from (\<open>prevSel\<close>, which only the method \<open>End\<close> reads).
\<close>

datatype sel = Sel (Nodes: "node list") (prevSel: "sel option")

definition pushStack :: "sel \<Rightarrow> node list \<Rightarrow> sel" where
  "pushStack fromSel ns = Sel ns (Some fromSel)"

definition newSingleSelection :: "node \<Rightarrow> sel" where
  "newSingleSelection n = Sel [n] None"

definition appendWithoutDuplicates :: "node list \<Rightarrow> node list \<Rightarrow> node list" where
  "appendWithoutDuplicates target ns =
     fold (\<lambda>n acc. if n \<in> set acc then acc else acc @ [n]) ns target"

definition mapNodes :: "node list \<Rightarrow> (node \<Rightarrow> node list) \<Rightarrow> node list" where
  "mapNodes ns f = fold (\<lambda>n acc. appendWithoutDuplicates acc (f n)) ns []"

definition elementKids :: "node \<Rightarrow> node list" where
  "elementKids n = filter (\<lambda>c. ntype c = ElementNode) (kids n)"

definition Children :: "sel \<Rightarrow> sel" where
  "Children s = pushStack s (mapNodes (Nodes s) elementKids)"

definition Length :: "sel \<Rightarrow> nat" where
  "Length s = length (Nodes s)"

text \<open>\<open>s.Eq(i)\<close> for an index that is not negative.\<close>

definition Eq :: "sel \<Rightarrow> nat \<Rightarrow> sel" where
  "Eq s i = (if i < length (Nodes s) then pushStack s [Nodes s ! i] else Sel [] None)"

text \<open>
  The matcher compiled from a selector string is a predicate on nodes; \<open>MatchAll\<close> walks
  a subtree in document order.
\<close>

fun MatchAll :: "(node \<Rightarrow> bool) \<Rightarrow> node \<Rightarrow> node list" where
  "MatchAll m (Node i t d a ks) =
     (if m (Node i t d a ks) then [Node i t d a ks] else []) @ concat (map (MatchAll m) ks)"

definition findWithMatcher :: "node list \<Rightarrow> (node \<Rightarrow> bool) \<Rightarrow> node list" where
  "findWithMatcher ns m =
     mapNodes ns (\<lambda>n. concat (map (MatchAll m) (elementKids n)))"

fun nodeText :: "node \<Rightarrow> string" where
  "nodeText (Node i t d a ks) =
     (if t = TextNode then d else []) @ concat (map nodeText ks)"

definition Text :: "sel \<Rightarrow> string" where
  "Text s = concat (map nodeText (Nodes s))"

text \<open>\<open>str, _ := s.Attr(name)\<close>: the attribute of the first node, empty when absent.\<close>

definition AttrOr :: "sel \<Rightarrow> string \<Rightarrow> string" where
  "AttrOr s name =
     (case Nodes s of
        [] \<Rightarrow> []
      | n # _ \<Rightarrow> (case map_of (Attr n) name of None \<Rightarrow> [] | Some v \<Rightarrow> v))"

text \<open>
  What a method of \<open>*goquery.Selection\<close> looked up by name does when it is called with no
  argument: there is no such method, the call panics (the method wants arguments), it
  returns a selection, or it returns something else.
\<close>

datatype meth = NoMethod | BadCall | SelResult "sel \<Rightarrow> sel" | OtherResult

section \<open>Destinations: types, values and errors\<close>

text \<open>
  The package reads the shape of a destination through \<open>reflect\<close>. A type is modelled by
  what the package can see of it: its kind, for an integer or float kind its width in
  bits, for an interface kind its number of methods, for a struct its fields (name,
  \<open>goquery\<close> tag, type). \<open>TNodes\<close> is the type \<open>[]*html.Node\<close>, \<open>TOther\<close> any kind the
  package has no case for (complex numbers, channels, functions, \<open>uintptr\<close>).
  \<open>TUnmarshaler c u\<close> is a defined type of underlying type \<open>u\<close> whose pointer type
  implements \<open>Unmarshaler\<close>; \<open>c\<close> names its \<open>UnmarshalHTML\<close> method. Types are finite
  trees: a Go type that refers to itself is outside the model.
\<close>

datatype ty =
    TBool | TInt nat | TUint nat | TFloat nat | TString
  | TInterface nat
  | TOther
  | TNodes
  | TStruct "(string \<times> string \<times> ty) list"
  | TSlice ty
  | TArray nat ty
  | TMap ty ty
  | TPtr ty
  | TUnmarshaler nat ty

text \<open>
  Values. A map is \<open>nil\<close> (\<open>None\<close>) or the list of the pairs stored into it, oldest first:
  \<open>SetMapIndex\<close> appends, and a lookup reads the last pair with an equal key. An interface
  value is nil or holds a dynamic value; the model admits no pointer as that dynamic
  value. Every value the package reaches is addressable (it comes from a pointer, a
  field or an element of an addressable value, or \<open>reflect.New\<close>) and every field is
  exported.
\<close>

datatype val =
    VBool bool | VInt int | VUint nat | VFloat real | VString string
  | VInterface "val option"
  | VOther
  | VNodes "node list"
  | VStruct "val list"
  | VSlice "val list"
  | VArray "val list"
  | VMap "(val \<times> val) list option"
  | VPtr "val option"

text \<open>
  Modelled from the spec: \<open>CannotUnmarshalError\<close> and its reason constants are declared in
  a file that is not part of the sources; the fields are those the sources set, the
  reasons are the taxonomy of the spec's section 7 under the names the sources use.
  \<open>V\<close> is a \<open>reflect.Value\<close>, a handle on the destination: it is modelled by the type
  of the destination (\<open>None\<close> for the zero \<open>reflect.Value{}\<close>); the contents of the
  destination are the value that a decode returns next to the error.
\<close>

datatype reason =
    nonPointer | nilValue | customUnmarshalError | typeConversionError
  | arrayLengthMismatch | missingValueSelector | mapKeyUnmarshalError

datatype numErr = ErrSyntax | ErrRange

datatype fldOrIdx = FieldName string | Index nat | KeyValue val

datatype error =
    NumError string string numErr
  | UserError string
  | CannotUnmarshalError (Reason: reason) (V: "ty option") (Err: "error option")
      (Val: string) (FldOrIdx: "fldOrIdx option")

text \<open>
  What the package takes from outside: the selector engine (\<open>compile sel\<close> is the matcher
  of a selector string; an invalid selector matches nothing), \<open>html.Render\<close> (which can
  fail), \<open>strings.TrimSpace\<close>, the method table of \<open>*goquery.Selection\<close> seen through
  \<open>reflect\<close>, \<open>strconv.ParseFloat\<close> with the rounding to \<open>float32\<close>, and the user's
  \<open>UnmarshalHTML\<close> methods: given the nodes and the receiver they return the receiver
  as they leave it and the error, if any.
\<close>

record host =
  compile :: "string \<Rightarrow> node \<Rightarrow> bool"
  Render :: "node \<Rightarrow> string option"
  TrimSpace :: "string \<Rightarrow> string"
  MethodByName :: "string \<Rightarrow> meth"
  ParseFloat :: "string \<Rightarrow> numErr + real"
  float32 :: "real \<Rightarrow> real"
  UnmarshalHTML :: "nat \<Rightarrow> node list \<Rightarrow> val \<Rightarrow> val \<times> error option"

definition Find :: "host \<Rightarrow> sel \<Rightarrow> string \<Rightarrow> sel" where
  "Find H s q = pushStack s (findWithMatcher (Nodes s) (compile H q))"

definition Filter :: "host \<Rightarrow> sel \<Rightarrow> string \<Rightarrow> sel" where
  "Filter H s q = pushStack s (filter (compile H q) (Nodes s))"

text \<open>\<open>str, _ := s.Html()\<close>: the children of the first node, rendered; empty on an error.\<close>

definition Html :: "host \<Rightarrow> sel \<Rightarrow> string" where
  "Html H s =
     (case Nodes s of
        [] \<Rightarrow> []
      | n # _ \<Rightarrow>
          (if \<forall>c \<in> set (kids n). Render H c \<noteq> None
           then concat (map (\<lambda>c. the (Render H c)) (kids n)) else []))"

definition applyValFn :: "host \<Rightarrow> valFn \<Rightarrow> sel \<Rightarrow> string" where
  "applyValFn H f s =
     (case f of
        textVal \<Rightarrow> TrimSpace H (Text s)
      | htmlVal \<Rightarrow> TrimSpace H (Html H s)
      | attrFunc a \<Rightarrow> AttrOr s a)"

subsection \<open>The tag of a field, narrowing\<close>

text \<open>
  \<open>func (tag goqueryTag) preprocess(s)\<close>: the loop runs on the tokens from \<open>offset\<close> on
  and stops before the last token (\<open>len(arr)-1 > offset\<close>).
\<close>

fun preprocess_loop :: "host \<Rightarrow> string list \<Rightarrow> sel \<Rightarrow> sel result" where
  "preprocess_loop H [] s = Ret s"
| "preprocess_loop H [x] s = Ret s"
| "preprocess_loop H ([] # y # r) s = Panic"
| "preprocess_loop H ((c # meth) # y # r) s =
     (if c = prePfx
      then (case MethodByName H meth of
              NoMethod \<Rightarrow> Ret s
            | BadCall \<Rightarrow> Panic
            | SelResult f \<Rightarrow> preprocess_loop H (y # r) (f s)
            | OtherResult \<Rightarrow> preprocess_loop H (y # r) s)
      else Ret s)"

definition preprocess :: "host \<Rightarrow> string \<Rightarrow> sel \<Rightarrow> sel result" where
  "preprocess H tag s = preprocess_loop H (Split tag CHR '','') s"

subsection \<open>strconv\<close>

text \<open>
  \<open>strconv.ParseBool\<close>, and \<open>strconv.ParseUint\<close> and \<open>strconv.ParseInt\<close> for base 10 and 64
  bits, as the package calls them. The scan of the digits stops at the first byte that
  is no digit or at the first overflow, whichever comes first.
\<close>

definition ParseBool :: "string \<Rightarrow> numErr + bool" where
  "ParseBool str =
     (if str \<in> set [''1'', ''t'', ''T'', ''TRUE'', ''true'', ''True''] then Inr True
      else if str \<in> set [''0'', ''f'', ''F'', ''FALSE'', ''false'', ''False''] then Inr False
      else Inl ErrSyntax)"

fun ParseUint_loop :: "string \<Rightarrow> nat \<Rightarrow> numErr + nat" where
  "ParseUint_loop [] n = Inr n"
| "ParseUint_loop (c # cs) n =
     (if (48::nat) \<le> of_char c \<and> (of_char c :: nat) \<le> 57
      then (let n1 = n * 10 + (of_char c - 48) in
            if n1 \<ge> 2 ^ 64 then Inl ErrRange else ParseUint_loop cs n1)
      else Inl ErrSyntax)"

definition ParseUint :: "string \<Rightarrow> numErr + nat" where
  "ParseUint str = (if str = [] then Inl ErrSyntax else ParseUint_loop str 0)"

definition ParseInt :: "string \<Rightarrow> numErr + int" where
  "ParseInt str =
     (case str of
        [] \<Rightarrow> Inl ErrSyntax
      | c # r \<Rightarrow>
          (let neg = (c = CHR ''-'');
               digits = (if c = CHR ''+'' \<or> c = CHR ''-'' then r else str) in
           case ParseUint digits of
             Inl e \<Rightarrow> Inl e
           | Inr un \<Rightarrow>
               if \<not> neg \<and> un \<ge> 2 ^ 63 then Inl ErrRange
               else if neg \<and> un > 2 ^ 63 then Inl ErrRange
               else Inr (if neg then - int un else int un)))"

text \<open>
  \<open>v.SetInt(i)\<close> and \<open>v.SetUint(i)\<close> store the 64-bit number converted to the width of the
  destination, which wraps.
\<close>

definition SetInt :: "nat \<Rightarrow> int \<Rightarrow> val" where
  "SetInt bits i =
     (let m = i mod 2 ^ bits in VInt (if m \<ge> 2 ^ (bits - 1) then m - 2 ^ bits else m))"

definition SetUint :: "nat \<Rightarrow> nat \<Rightarrow> val" where
  "SetUint bits n = VUint (n mod 2 ^ bits)"

definition SetFloat :: "host \<Rightarrow> nat \<Rightarrow> real \<Rightarrow> val" where
  "SetFloat H bits x = VFloat (if bits = 32 then float32 H x else x)"

text \<open>
  \<open>func unmarshalLiteral(s string, v reflect.Value) error\<close>: the error, or the
  destination as the call leaves it. A kind without a case, and an interface with
  methods, fall through to \<open>return nil\<close>.
\<close>

definition unmarshalLiteral :: "host \<Rightarrow> string \<Rightarrow> ty \<Rightarrow> val \<Rightarrow> error + val" where
  "unmarshalLiteral H str t v =
     (case t of
        TInterface n \<Rightarrow> (if n = 0 then Inr (VInterface (Some (VString str))) else Inr v)
      | TBool \<Rightarrow>
          (case ParseBool str of
             Inl e \<Rightarrow> Inl (NumError ''ParseBool'' str e) | Inr b \<Rightarrow> Inr (VBool b))
      | TInt bits \<Rightarrow>
          (case ParseInt str of
             Inl e \<Rightarrow> Inl (NumError ''ParseInt'' str e) | Inr i \<Rightarrow> Inr (SetInt bits i))
      | TUint bits \<Rightarrow>
          (case ParseUint str of
             Inl e \<Rightarrow> Inl (NumError ''ParseUint'' str e) | Inr n \<Rightarrow> Inr (SetUint bits n))
      | TFloat bits \<Rightarrow>
          (case ParseFloat H str of
             Inl e \<Rightarrow> Inl (NumError ''ParseFloat'' str e) | Inr x \<Rightarrow> Inr (SetFloat H bits x))
      | TString \<Rightarrow> Inr (VString str)
      | _ \<Rightarrow> Inr v)"

section \<open>Pointer indirection\<close>

text \<open>\<open>TypeDeref\<close> strips every pointer level of a type.\<close>

fun isPtr :: "ty \<Rightarrow> bool" where
  "isPtr (TPtr t) = True"
| "isPtr t = False"

fun TypeDeref :: "ty \<Rightarrow> ty" where
  "TypeDeref (TPtr t) = TypeDeref t"
| "TypeDeref t = t"

text \<open>The zero value of a type (\<open>reflect.Zero\<close>, the pointee of \<open>reflect.New\<close>).\<close>

fun Zero :: "ty \<Rightarrow> val" where
  "Zero TBool = VBool False"
| "Zero (TInt b) = VInt 0"
| "Zero (TUint b) = VUint 0"
| "Zero (TFloat b) = VFloat 0"
| "Zero TString = VString []"
| "Zero (TInterface n) = VInterface None"
| "Zero TOther = VOther"
| "Zero TNodes = VNodes []"
| "Zero (TStruct fs) = VStruct (map (\<lambda>f. Zero (snd (snd f))) fs)"
| "Zero (TSlice t) = VSlice []"
| "Zero (TArray n t) = VArray (replicate n (Zero t))"
| "Zero (TMap k e) = VMap None"
| "Zero (TPtr t) = VPtr None"
| "Zero (TUnmarshaler c u) = Zero u"

text \<open>
  \<open>func indirect(v reflect.Value) (Unmarshaler, reflect.Value)\<close>. The result is a panic,
  the decoder found on the way with its receiver, or the value reached; the number is
  the count of pointer levels between the returned value and the one passed in, so that
  the caller can put the new contents back where the source writes through the
  pointers. \<open>implements t\<close> is the test \<open>v.Type().NumMethod() > 0\<close> and
  \<open>v.Interface().(Unmarshaler)\<close> for the pointer type \<open>t\<close>.

  A nil pointer is set to \<open>reflect.New(TypeDeref(v.Type()))\<close>, which is a pointer to the
  type without any pointer level: \<open>v.Set\<close> panics when that is not the type of \<open>v\<close>, that
  is when \<open>v\<close> points to a pointer. The first lines of the loop follow an interface that
  holds a pointer to a pointer; the model has no such interface value.
\<close>

datatype ind = IPanic | IUnmarshaler nat val nat | IValue ty val nat

fun deeper :: "ind \<Rightarrow> ind" where
  "deeper IPanic = IPanic"
| "deeper (IUnmarshaler c r k) = IUnmarshaler c r (Suc k)"
| "deeper (IValue t x k) = IValue t x (Suc k)"

fun unAddr :: "ind \<Rightarrow> ind" where
  "unAddr IPanic = IPanic"
| "unAddr (IUnmarshaler c r k) = IUnmarshaler c r (k - 1)"
| "unAddr (IValue t x k) = IValue t x (k - 1)"

fun implements :: "ty \<Rightarrow> nat option" where
  "implements (TPtr (TUnmarshaler c u)) = Some c"
| "implements t = None"

fun indirect_loop :: "ty \<Rightarrow> val \<Rightarrow> ind" where
  "indirect_loop (TPtr t) v =
     (case v of
        VPtr p \<Rightarrow>
          (if p = None \<and> isPtr t then IPanic
           else (let e = (case p of None \<Rightarrow> Zero (TypeDeref t) | Some x \<Rightarrow> x) in
                 case implements (TPtr t) of
                   Some c \<Rightarrow> IUnmarshaler c e 1
                 | None \<Rightarrow> deeper (indirect_loop t e)))
      | _ \<Rightarrow> IPanic)"
| "indirect_loop t v = IValue t v 0"

text \<open>
  Before the loop the source takes the address of a value whose type has a name. For a
  type without a name the loop returns the value at once, and so does the loop after
  taking the address, since the pointer to such a type has no method: taking the
  address always gives what the source gives.
\<close>

definition indirect :: "ty \<Rightarrow> val \<Rightarrow> ind" where
  "indirect t v =
     (if isPtr t then indirect_loop t v
      else unAddr (indirect_loop (TPtr t) (VPtr (Some v))))"

fun rewrap :: "nat \<Rightarrow> val \<Rightarrow> val" where
  "rewrap 0 x = x"
| "rewrap (Suc k) x = VPtr (Some (rewrap k x))"

section \<open>Key search of a map\<close>

lemma appendWithoutDuplicates_sum:
  "sum_list (map size (appendWithoutDuplicates acc ns))
     \<le> sum_list (map size acc) + sum_list (map size ns)"
  unfolding appendWithoutDuplicates_def
proof (induction ns arbitrary: acc)
  case Nil
  show ?case by simp
next
  case (Cons a ns)
  show ?case
    using Cons.IH [of acc] Cons.IH [of "acc @ [a]"] by (simp split: if_splits)
qed

lemma mapNodes_sum_aux:
  "sum_list (map size (fold (\<lambda>n acc. appendWithoutDuplicates acc (f n)) ns acc))
     \<le> sum_list (map size acc) + sum_list (map (\<lambda>n. sum_list (map size (f n))) ns)"
proof (induction ns arbitrary: acc)
  case Nil
  show ?case by simp
next
  case (Cons a ns)
  show ?case
    using Cons.IH [of "appendWithoutDuplicates acc (f a)"]
      appendWithoutDuplicates_sum [of acc "f a"]
    by simp
qed

lemma kids_sum: "sum_list (map size (kids n)) < size n"
  by (cases n) (simp add: size_list_conv_sum_list)

lemma elementKids_sum: "sum_list (map size (elementKids n)) < size n"
proof -
  have "sum_list (map size (filter P xs)) \<le> sum_list (map size xs)" for P and xs :: "node list"
    by (induction xs) auto
  then show ?thesis
    unfolding elementKids_def using kids_sum [of n] by (meson le_less_trans)
qed

lemma Children_smaller:
  assumes "Nodes s \<noteq> []"
  shows "sum_list (map size (Nodes (Children s))) < sum_list (map size (Nodes s))"
proof -
  have lt: "ns \<noteq> [] \<Longrightarrow>
      sum_list (map (\<lambda>n. sum_list (map size (elementKids n))) ns) < sum_list (map size ns)"
    for ns :: "node list"
  proof (induction ns)
    case Nil
    then show ?case by simp
  next
    case (Cons a ns)
    show ?case
    proof (cases "ns = []")
      case True
      then show ?thesis using elementKids_sum [of a] by simp
    next
      case False
      then show ?thesis using Cons.IH elementKids_sum [of a] by simp
    qed
  qed
  have "sum_list (map size (Nodes (Children s)))
      \<le> sum_list (map (\<lambda>n. sum_list (map size (elementKids n))) (Nodes s))"
    unfolding Children_def pushStack_def mapNodes_def
    using mapNodes_sum_aux [of elementKids "Nodes s" "[]"] by simp
  then show ?thesis using lt [OF assms] by simp
qed

text \<open>
  \<open>func childrenUntilMatch(s, sel)\<close>: the loop, started at the children of \<open>s\<close>, and the
  choice after it. The loop ends because every round goes one level down a finite tree.
\<close>

function childrenUntilMatch_loop :: "host \<Rightarrow> string \<Rightarrow> sel \<Rightarrow> sel" where
  "childrenUntilMatch_loop H q s =
     (if Length s \<noteq> 0 \<and> Length (Filter H s q) = 0
      then childrenUntilMatch_loop H q (Children s) else s)"
  by pat_completeness auto
termination
  by (relation "measure (\<lambda>(H, q, s). sum_list (map size (Nodes s)))")
     (auto simp: Length_def Children_smaller)

definition childrenUntilMatch :: "host \<Rightarrow> sel \<Rightarrow> string \<Rightarrow> sel" where
  "childrenUntilMatch H s q =
     (let orig = s; s' = childrenUntilMatch_loop H q (Children s) in
      if Length s' = 0 then orig else Filter H s' q)"

section \<open>The decoder\<close>

fun isUnmarshaler :: "ind \<Rightarrow> bool" where
  "isUnmarshaler (IUnmarshaler c r k) = True"
| "isUnmarshaler i = False"

text \<open>\<open>func wrapUnmErr(err error, v reflect.Value) error\<close>.\<close>

definition wrapUnmErr :: "error option \<Rightarrow> ty option \<Rightarrow> error option" where
  "wrapUnmErr err v =
     (case err of
        None \<Rightarrow> None
      | Some e \<Rightarrow> Some (CannotUnmarshalError customUnmarshalError v (Some e) [] None))"

text \<open>
  The type switch \<open>switch val := v.Interface().(type) { case []*html.Node: ... }\<close> looks at
  the dynamic type: it also takes an interface that holds such a slice.
\<close>

definition asNodes :: "ty \<Rightarrow> val \<Rightarrow> node list option" where
  "asNodes t x =
     (case t of
        TNodes \<Rightarrow> (case x of VNodes ns \<Rightarrow> Some ns | _ \<Rightarrow> None)
      | TInterface n \<Rightarrow> (case x of VInterface (Some (VNodes ns)) \<Rightarrow> Some ns | _ \<Rightarrow> None)
      | _ \<Rightarrow> None)"

definition setNodes :: "ty \<Rightarrow> node list \<Rightarrow> val" where
  "setNodes t ns = (case t of TInterface n \<Rightarrow> VInterface (Some (VNodes ns)) | _ \<Rightarrow> VNodes ns)"

text \<open>
  \<open>reflect.New(TypeDeref(t))\<close> is what the slice and the map decoders decode an element
  into. Afterwards the pointer is dereferenced unless \<open>t\<close> is a pointer type, and is
  handed to \<open>reflect.Append\<close> or \<open>SetMapIndex\<close>, which panic when its type is not \<open>t\<close>:
  that is the case when \<open>t\<close> is a pointer to a pointer.
\<close>

definition settle :: "ty \<Rightarrow> val \<Rightarrow> val result" where
  "settle t new =
     (case t of
        TPtr u \<Rightarrow> (if isPtr u then Panic else Ret new)
      | _ \<Rightarrow> (case new of VPtr (Some x) \<Rightarrow> Ret x | _ \<Rightarrow> Panic))"

definition newOf :: "ty \<Rightarrow> val" where
  "newOf t = VPtr (Some (Zero (TypeDeref t)))"

text \<open>The size of a type, for the termination of the decoder.\<close>

fun tsz :: "ty \<Rightarrow> nat" where
  "tsz (TStruct fs) = Suc (sum_list (map (\<lambda>f. tsz (snd (snd f))) fs))"
| "tsz (TSlice t) = 2 + tsz t"
| "tsz (TArray n t) = 2 + tsz t"
| "tsz (TMap k e) = 2 + tsz k + tsz e"
| "tsz (TPtr t) = Suc (tsz t)"
| "tsz (TUnmarshaler c u) = Suc (tsz u)"
| "tsz t = 1"

lemma tsz_pos: "0 < tsz t"
  by (cases t) auto

lemma tsz_TypeDeref: "tsz (TypeDeref t) \<le> tsz t"
  by (induction t rule: TypeDeref.induct) auto

lemma deeper_IValue: "deeper i = IValue t x k \<Longrightarrow> \<exists>k'. i = IValue t x k'"
  by (cases i) auto

lemma unAddr_IValue: "unAddr i = IValue t x k \<Longrightarrow> \<exists>k'. i = IValue t x k'"
  by (cases i) auto

lemma indirect_loop_tsz: "indirect_loop ty v = IValue t x k \<Longrightarrow> tsz t \<le> tsz ty"
proof (induction ty arbitrary: v k)
  case (TPtr u)
  show ?case
  proof (cases v)
    case (VPtr p)
    with TPtr.prems obtain e where "deeper (indirect_loop u e) = IValue t x k"
      by (auto simp: Let_def split: if_splits option.splits)
    then obtain k' where "indirect_loop u e = IValue t x k'"
      using deeper_IValue by blast
    then show ?thesis using TPtr.IH by fastforce
  qed (use TPtr.prems in auto)
qed auto

lemma indirect_loop_nonptr: "\<not> isPtr ty \<Longrightarrow> indirect_loop ty v = IValue ty v 0"
  by (cases ty) auto

lemma indirect_tsz: "indirect ty v = IValue t x k \<Longrightarrow> tsz t \<le> tsz ty"
proof (cases "isPtr ty")
  case True
  assume "indirect ty v = IValue t x k"
  with True show ?thesis by (simp add: indirect_def indirect_loop_tsz)
next
  case False
  assume "indirect ty v = IValue t x k"
  with False have "t = ty"
    by (auto simp: indirect_def indirect_loop_nonptr split: option.splits)
  then show ?thesis by simp
qed

text \<open>
  \<open>unmarshalByType\<close> and the decoders it dispatches to. Each returns a panic or
  the destination as the call leaves it together with the error, if any: the source
  writes through \<open>reflect\<close> as it goes, so that what was written before an error stays.
  \<open>unmarshalStruct\<close> is called with the fields and the field values that are still to
  be done; the loops of the array and of the slice decoder carry their index, the loop
  of the map decoder (the closure given to \<open>EachWithBreak\<close>) the key nodes still to be
  visited. A struct value that has fewer values than fields, and the like, is not a
  value of its type; the model makes such a call panic.
\<close>

function
  unmarshalByType :: "host \<Rightarrow> sel \<Rightarrow> ty \<Rightarrow> val \<Rightarrow> string \<Rightarrow> (val \<times> error option) result" and
  unmarshalStruct ::
    "host \<Rightarrow> sel \<Rightarrow> ty \<Rightarrow> (string \<times> string \<times> ty) list \<Rightarrow> val list
      \<Rightarrow> (val list \<times> error option) result" and
  unmarshalArray ::
    "host \<Rightarrow> sel \<Rightarrow> nat \<Rightarrow> ty \<Rightarrow> val list \<Rightarrow> string \<Rightarrow> (val list \<times> error option) result" and
  unmarshalArray_loop ::
    "host \<Rightarrow> sel \<Rightarrow> nat \<Rightarrow> ty \<Rightarrow> string \<Rightarrow> nat \<Rightarrow> val list
      \<Rightarrow> (val list \<times> error option) result" and
  unmarshalSlice ::
    "host \<Rightarrow> sel \<Rightarrow> ty \<Rightarrow> val list \<Rightarrow> string \<Rightarrow> (val list \<times> error option) result" and
  unmarshalSlice_loop ::
    "host \<Rightarrow> sel \<Rightarrow> ty \<Rightarrow> string \<Rightarrow> nat \<Rightarrow> val list \<Rightarrow> (val list \<times> error option) result" and
  unmarshalMap ::
    "host \<Rightarrow> sel \<Rightarrow> ty \<Rightarrow> ty \<Rightarrow> (val \<times> val) list option \<Rightarrow> string
      \<Rightarrow> ((val \<times> val) list option \<times> error option) result" and
  unmarshalMap_loop ::
    "host \<Rightarrow> ty \<Rightarrow> ty \<Rightarrow> string \<Rightarrow> string \<Rightarrow> node list \<Rightarrow> (val \<times> val) list
      \<Rightarrow> ((val \<times> val) list \<times> error option) result"
where
  "unmarshalByType H s ty v tag =
     (case indirect ty v of
        IPanic \<Rightarrow> Panic
      | IUnmarshaler c recv k \<Rightarrow>
          (case UnmarshalHTML H c (Nodes s) recv of
             (recv', err) \<Rightarrow> Ret (rewrap k recv', wrapUnmErr err None))
      | IValue t x k \<Rightarrow>
          (case asNodes t x of
             Some ns \<Rightarrow> Ret (rewrap k (setNodes t (ns @ Nodes s)), None)
           | None \<Rightarrow>
               (case t of
                  TStruct fs \<Rightarrow>
                    (case x of
                       VStruct vs \<Rightarrow>
                         (case unmarshalStruct H s t fs vs of
                            Panic \<Rightarrow> Panic
                          | Ret (vs', err) \<Rightarrow> Ret (rewrap k (VStruct vs'), err))
                     | _ \<Rightarrow> Panic)
                | TSlice eleT \<Rightarrow>
                    (case x of
                       VSlice xs \<Rightarrow>
                         (case unmarshalSlice H s eleT xs tag of
                            Panic \<Rightarrow> Panic
                          | Ret (xs', err) \<Rightarrow> Ret (rewrap k (VSlice xs'), err))
                     | _ \<Rightarrow> Panic)
                | TArray n eleT \<Rightarrow>
                    (case x of
                       VArray xs \<Rightarrow>
                         (case unmarshalArray H s n eleT xs tag of
                            Panic \<Rightarrow> Panic
                          | Ret (xs', err) \<Rightarrow> Ret (rewrap k (VArray xs'), err))
                     | _ \<Rightarrow> Panic)
                | TMap keyT eleT \<Rightarrow>
                    (case x of
                       VMap m \<Rightarrow>
                         (case unmarshalMap H s keyT eleT m tag of
                            Panic \<Rightarrow> Panic
                          | Ret (m', err) \<Rightarrow> Ret (rewrap k (VMap m'), err))
                     | _ \<Rightarrow> Panic)
                | _ \<Rightarrow>
                    (case valFunc tag of
                       Panic \<Rightarrow> Panic
                     | Ret vf \<Rightarrow>
                         (let str = applyValFn H vf s in
                          case unmarshalLiteral H str t x of
                            Inl err \<Rightarrow>
                              Ret (rewrap k x,
                                   Some (CannotUnmarshalError typeConversionError (Some t)
                                           (Some err) str None))
                          | Inr x' \<Rightarrow> Ret (rewrap k x', None))))))"
| "unmarshalStruct H s sty [] vs = Ret (vs, None)"
| "unmarshalStruct H s sty (f # fs) [] = Panic"
| "unmarshalStruct H s sty (f # fs) (v # vs) =
     (let name = fst f; tag = fst (snd f); fty = snd (snd f);
          continue = (\<lambda>v1. case unmarshalStruct H s sty fs vs of
                              Panic \<Rightarrow> Panic
                            | Ret (vs', err) \<Rightarrow> Ret (v1 # vs', err)) in
      if tag = ignoreTag then continue v
      else if tag = [] \<and> \<not> isUnmarshaler (indirect fty v)
      then (case indirect fty v of
              IValue t x k \<Rightarrow> continue (rewrap k x)
            | _ \<Rightarrow> Panic)
      else
        (case preprocess H tag s of
           Panic \<Rightarrow> Panic
         | Ret sel0 \<Rightarrow>
             (case (if tag \<noteq> []
                    then (case selector tag 0 of
                            Panic \<Rightarrow> Panic
                          | Ret selStr \<Rightarrow> Ret (Find H sel0 selStr))
                    else Ret sel0) of
                Panic \<Rightarrow> Panic
              | Ret sel1 \<Rightarrow>
                  (case unmarshalByType H sel1 fty v tag of
                     Panic \<Rightarrow> Panic
                   | Ret (v', Some err) \<Rightarrow>
                       Ret (v' # vs,
                            Some (CannotUnmarshalError typeConversionError (Some sty)
                                    (Some err) [] (Some (FieldName name))))
                   | Ret (v', None) \<Rightarrow> continue v'))))"
| "unmarshalArray H s n eleT xs tag =
     (if n \<noteq> length (Nodes s)
      then Ret (xs, Some (CannotUnmarshalError arrayLengthMismatch (Some (TArray n eleT))
                            None [] None))
      else unmarshalArray_loop H s n eleT tag 0 xs)"
| "unmarshalArray_loop H s n eleT tag i xs =
     (if i < n
      then (if i < length xs
            then (case unmarshalByType H (Eq s i) eleT (xs ! i) tag of
                    Panic \<Rightarrow> Panic
                  | Ret (x', Some err) \<Rightarrow>
                      Ret (xs[i := x'],
                           Some (CannotUnmarshalError typeConversionError
                                   (Some (TArray n eleT)) (Some err) [] (Some (Index i))))
                  | Ret (x', None) \<Rightarrow> unmarshalArray_loop H s n eleT tag (Suc i) (xs[i := x']))
            else Panic)
      else Ret (xs, None))"
| "unmarshalSlice H s eleT xs tag =
     (case unmarshalSlice_loop H s eleT tag 0 xs of
        Panic \<Rightarrow> Panic
      | Ret (xs', Some err) \<Rightarrow> Ret (xs, Some err)
      | Ret (xs', None) \<Rightarrow> Ret (xs', None))"
| "unmarshalSlice_loop H s eleT tag i acc =
     (if i < Length s
      then (case unmarshalByType H (Eq s i) (TPtr (TypeDeref eleT)) (newOf eleT) tag of
              Panic \<Rightarrow> Panic
            | Ret (newV, Some err) \<Rightarrow>
                Ret (acc, Some (CannotUnmarshalError typeConversionError (Some (TSlice eleT))
                                  (Some err) [] (Some (Index i))))
            | Ret (newV, None) \<Rightarrow>
                (case settle eleT newV of
                   Panic \<Rightarrow> Panic
                 | Ret x \<Rightarrow> unmarshalSlice_loop H s eleT tag (Suc i) (acc @ [x])))
      else Ret (acc, None))"
| "unmarshalMap H s keyT eleT m tag =
     (let m0 = (case m of None \<Rightarrow> [] | Some ps \<Rightarrow> ps) in
      case selector tag 1 of
        Panic \<Rightarrow> Panic
      | Ret q \<Rightarrow>
          if q = []
          then Ret (Some m0, Some (CannotUnmarshalError missingValueSelector
                                     (Some (TMap keyT eleT)) None [] None))
          else
            (let s' = childrenUntilMatch H s q; valTag = popVal tag in
             case unmarshalMap_loop H keyT eleT tag valTag (Nodes s') m0 of
               Panic \<Rightarrow> Panic
             | Ret (m', Some err) \<Rightarrow>
                 Ret (Some m', Some (CannotUnmarshalError typeConversionError
                                       (Some (TMap keyT eleT)) (Some err) [] None))
             | Ret (m', None) \<Rightarrow> Ret (Some m', None)))"
| "unmarshalMap_loop H keyT eleT tag valTag [] m = Ret (m, None)"
| "unmarshalMap_loop H keyT eleT tag valTag (n # ns) m =
     (let subS = newSingleSelection n in
      case unmarshalByType H subS (TPtr (TypeDeref keyT)) (newOf keyT) tag of
        Panic \<Rightarrow> Panic
      | Ret (newK, Some err) \<Rightarrow>
          (case valFunc valTag of
             Panic \<Rightarrow> Panic
           | Ret vf \<Rightarrow>
               Ret (m, Some (CannotUnmarshalError mapKeyUnmarshalError
                               (Some (TMap keyT eleT)) (Some err) (applyValFn H vf subS)
                               (Some (KeyValue newK)))))
      | Ret (newK, None) \<Rightarrow>
          (case unmarshalByType H subS (TPtr (TypeDeref eleT)) (newOf eleT) valTag of
             Panic \<Rightarrow> Panic
           | Ret (newV, Some err) \<Rightarrow> Ret (m, Some err)
           | Ret (newV, None) \<Rightarrow>
               (case settle eleT newV of
                  Panic \<Rightarrow> Panic
                | Ret v' \<Rightarrow>
                    (case settle keyT newK of
                       Panic \<Rightarrow> Panic
                     | Ret k' \<Rightarrow> unmarshalMap_loop H keyT eleT tag valTag ns (m @ [(k', v')])))))"
  by pat_completeness auto
termination
  apply (relation "inv_image (less_than <*lex*> less_than <*lex*> less_than)
    (\<lambda>a. case a of
       Inl (Inl (Inl (H, s, ty, v, tag))) \<Rightarrow> (2 * tsz ty, 0, 0)
     | Inl (Inl (Inr (H, s, sty, fs, vs))) \<Rightarrow>
         (2 * sum_list (map (\<lambda>f. tsz (snd (snd f))) fs) + 1, 0, 0)
     | Inl (Inr (Inl (H, s, n, eleT, xs, tag))) \<Rightarrow> (2 * tsz eleT + 3, 1, 0)
     | Inl (Inr (Inr (H, s, n, eleT, tag, i, xs))) \<Rightarrow> (2 * tsz eleT + 3, 0, n - i)
     | Inr (Inl (Inl (H, s, eleT, xs, tag))) \<Rightarrow> (2 * tsz eleT + 3, 1, 0)
     | Inr (Inl (Inr (H, s, eleT, tag, i, acc))) \<Rightarrow> (2 * tsz eleT + 3, 0, Length s - i)
     | Inr (Inr (Inl (H, s, keyT, eleT, m, tag))) \<Rightarrow> (2 * (tsz keyT + tsz eleT) + 3, 1, 0)
     | Inr (Inr (Inr (H, keyT, eleT, tag, valTag, ns, m))) \<Rightarrow>
         (2 * (tsz keyT + tsz eleT) + 3, 0, length ns))")
  subgoal by (intro wf_inv_image wf_lex_prod wf_less_than)
  apply (simp_all add: tsz_pos)
  subgoal for ty v t x k fs vs using indirect_tsz [of ty v "TStruct fs" "VStruct vs" k] by simp
  subgoal for ty v t x k eleT xs using indirect_tsz [of ty v "TSlice eleT" "VSlice xs" k] by simp
  subgoal for ty v t x k n eleT xs using indirect_tsz [of ty v "TArray n eleT" "VArray xs" k] by simp
  subgoal for ty v t x k keyT eleT m using indirect_tsz [of ty v "TMap keyT eleT" "VMap m" k] by simp
  subgoal for s eleT i using tsz_TypeDeref [of eleT] by linarith
  subgoal for keyT eleT using tsz_TypeDeref [of keyT] by linarith
  subgoal for H keyT eleT using tsz_TypeDeref [of eleT] by linarith
  done

declare unmarshalByType.simps [simp del] unmarshalStruct.simps [simp del]
  unmarshalArray.simps [simp del] unmarshalArray_loop.simps [simp del]
  unmarshalSlice.simps [simp del] unmarshalSlice_loop.simps [simp del]
  unmarshalMap.simps [simp del] unmarshalMap_loop.simps [simp del]
  childrenUntilMatch_loop.simps [simp del]

text \<open>
  \<open>func UnmarshalSelection(s, iface)\<close>, for a destination of type \<open>t\<close> holding \<open>v\<close>.
\<close>

definition UnmarshalSelection :: "host \<Rightarrow> sel \<Rightarrow> ty \<Rightarrow> val \<Rightarrow> (val \<times> error option) result" where
  "UnmarshalSelection H s t v =
     (if \<not> isPtr t
      then Ret (v, Some (CannotUnmarshalError nonPointer (Some t) None [] None))
      else if v = VPtr None
      then Ret (v, Some (CannotUnmarshalError nilValue (Some t) None [] None))
      else (case indirect t v of
              IPanic \<Rightarrow> Panic
            | IUnmarshaler c recv k \<Rightarrow>
                (case UnmarshalHTML H c (Nodes s) recv of
                   (recv', err) \<Rightarrow> Ret (rewrap k recv', wrapUnmErr err None))
            | IValue t' x k \<Rightarrow>
                (case unmarshalByType H s t' x [] of
                   Panic \<Rightarrow> Panic
                 | Ret (x', err) \<Rightarrow> Ret (rewrap k x', err))))"

section \<open>A host for worked examples\<close>

text \<open>
  An instance of the host on which the examples below are run. Its selector engine
  knows type selectors (an element name matches the elements of that name), its
  \<open>TrimSpace\<close> the ASCII white space, its method table \<open>Parent\<close>, taken in the tree \<open>doc\<close>;
  no example renders markup, parses a float or calls another method. Its one
  \<open>UnmarshalHTML\<close> stores the text of the nodes and fails when there is none.
\<close>

fun parentsIn :: "node \<Rightarrow> node \<Rightarrow> node list" where
  "parentsIn (Node i t d a ks) n =
     (if n \<in> set ks then [Node i t d a ks] else []) @ concat (map (\<lambda>k. parentsIn k n) ks)"

definition Parent :: "node \<Rightarrow> sel \<Rightarrow> sel" where
  "Parent doc s =
     pushStack s (mapNodes (Nodes s)
       (\<lambda>n. filter (\<lambda>p. ntype p = ElementNode) (take 1 (parentsIn doc n))))"

definition isSpace :: "char \<Rightarrow> bool" where
  "isSpace c = (c \<in> set [CHR '' '', CHR 0x09, CHR 0x0A, CHR 0x0B, CHR 0x0C, CHR 0x0D])"

definition trimASCII :: "string \<Rightarrow> string" where
  "trimASCII str = rev (dropWhile isSpace (rev (dropWhile isSpace str)))"

definition exampleHost :: "node \<Rightarrow> host" where
  "exampleHost doc =
     \<lparr> compile = (\<lambda>q n. ntype n = ElementNode \<and> Data n = q),
       Render = (\<lambda>n. None),
       TrimSpace = trimASCII,
       MethodByName = (\<lambda>name. if name = ''Parent'' then SelResult (Parent doc) else NoMethod),
       ParseFloat = (\<lambda>str. Inl ErrSyntax),
       float32 = (\<lambda>x. x),
       UnmarshalHTML = (\<lambda>c ns recv.
          if ns = [] then (recv, Some (UserError ''no nodes''))
          else (VString (concat (map nodeText ns)), None)) \<rparr>"

definition tx :: "nat \<Rightarrow> string \<Rightarrow> node" where
  "tx i str = Node i TextNode str [] []"

definition el :: "nat \<Rightarrow> string \<Rightarrow> (string \<times> string) list \<Rightarrow> node list \<Rightarrow> node" where
  "el i name attrs ks = Node i ElementNode name attrs ks"

text \<open>The selection of a whole document: its one node is the document node.\<close>

definition docSel :: "node \<Rightarrow> sel" where
  "docSel doc = Sel [Node 1000 OtherNode [] [] [doc]] None"

text \<open>\<open><div><a>k</a><b>sib</b></div>\<close>\<close>

definition doc1 :: node where
  "doc1 = el 0 ''div'' [] [el 1 ''a'' [] [tx 2 ''k''], el 3 ''b'' [] [tx 4 ''sib'']]"

section \<open>Definitions for the statements\<close>

text \<open>
  The generations of children below a selection: generation 0 is its children,
  generation \<open>k + 1\<close> the children of generation \<open>k\<close>.
\<close>

definition generation :: "sel \<Rightarrow> nat \<Rightarrow> sel" where
  "generation s k = (Children ^^ Suc k) s"

text \<open>
  The body of the loop of \<open>unmarshalStruct\<close>, for one field: the value of the field as the
  body leaves it, and the error with which the loop returns, if any.
\<close>

definition unmarshalStruct_field ::
  "host \<Rightarrow> sel \<Rightarrow> ty \<Rightarrow> string \<times> string \<times> ty \<Rightarrow> val \<Rightarrow> (val \<times> error option) result" where
  "unmarshalStruct_field H s sty f v =
     (let name = fst f; tag = fst (snd f); fty = snd (snd f) in
      if tag = ignoreTag then Ret (v, None)
      else if tag = [] \<and> \<not> isUnmarshaler (indirect fty v)
      then (case indirect fty v of
              IValue t x k \<Rightarrow> Ret (rewrap k x, None)
            | _ \<Rightarrow> Panic)
      else
        (case preprocess H tag s of
           Panic \<Rightarrow> Panic
         | Ret sel0 \<Rightarrow>
             (case (if tag \<noteq> []
                    then (case selector tag 0 of
                            Panic \<Rightarrow> Panic
                          | Ret selStr \<Rightarrow> Ret (Find H sel0 selStr))
                    else Ret sel0) of
                Panic \<Rightarrow> Panic
              | Ret sel1 \<Rightarrow>
                  (case unmarshalByType H sel1 fty v tag of
                     Panic \<Rightarrow> Panic
                   | Ret (v', Some err) \<Rightarrow>
                       Ret (v', Some (CannotUnmarshalError typeConversionError (Some sty)
                                    (Some err) [] (Some (FieldName name))))
                   | Ret (v', None) \<Rightarrow> Ret (v', None)))))"

text \<open>\<open><div><span><a>k1</a><a>k2</a><b>x</b></span></div>\<close>\<close>

definition doc2 :: node where
  "doc2 = el 0 ''div'' []
     [el 1 ''span'' [] [el 2 ''a'' [] [tx 3 ''k1''], el 4 ''a'' [] [tx 5 ''k2''], el 6 ''b'' [] [tx 7 ''x'']]]"

text \<open>
  The closure that \<open>unmarshalMap\<close> gives to \<open>EachWithBreak\<close>, for one key node: it panics,
  it stops the iteration with an error, or it stores a pair.
\<close>

definition unmarshalMap_pair ::
  "host \<Rightarrow> ty \<Rightarrow> ty \<Rightarrow> string \<Rightarrow> string \<Rightarrow> node \<Rightarrow> (error + val \<times> val) result" where
  "unmarshalMap_pair H keyT eleT tag valTag n =
     (let subS = newSingleSelection n in
      case unmarshalByType H subS (TPtr (TypeDeref keyT)) (newOf keyT) tag of
        Panic \<Rightarrow> Panic
      | Ret (newK, Some err) \<Rightarrow>
          (case valFunc valTag of
             Panic \<Rightarrow> Panic
           | Ret vf \<Rightarrow>
               Ret (Inl (CannotUnmarshalError mapKeyUnmarshalError
                           (Some (TMap keyT eleT)) (Some err) (applyValFn H vf subS)
                           (Some (KeyValue newK)))))
      | Ret (newK, None) \<Rightarrow>
          (case unmarshalByType H subS (TPtr (TypeDeref eleT)) (newOf eleT) valTag of
             Panic \<Rightarrow> Panic
           | Ret (newV, Some err) \<Rightarrow> Ret (Inl err)
           | Ret (newV, None) \<Rightarrow>
               (case settle eleT newV of
                  Panic \<Rightarrow> Panic
                | Ret v' \<Rightarrow>
                    (case settle keyT newK of
                       Panic \<Rightarrow> Panic
                     | Ret k' \<Rightarrow> Ret (Inr (k', v'))))))"

text \<open>\<open><div><a v="true">k1</a><a v="zzz">k2</a><a v="false">k3</a></div>\<close>\<close>

definition doc3 :: node where
  "doc3 = el 10 ''div'' []
     [el 11 ''a'' [(''v'', ''true'')] [tx 2 ''k1''],
      el 3 ''a'' [(''v'', ''zzz'')] [tx 4 ''k2''],
      el 5 ''a'' [(''v'', ''false'')] [tx 6 ''k3'']]"

text \<open>
  An annotation whose first token is no directive that \<open>preprocess\<close> would run, and a type
  in which every field of every record that the built-in decoders reach has such an
  annotation. (The decoders do not look into a type that has a custom decoder.)
\<close>

definition plainTag :: "string \<Rightarrow> bool" where
  "plainTag tag =
     (case Split tag CHR '','' of
        (c # meth) # y # r \<Rightarrow> c \<noteq> prePfx
      | _ \<Rightarrow> True)"

fun noDirectives :: "ty \<Rightarrow> bool" where
  "noDirectives (TStruct fs) =
     (\<forall>f \<in> set fs. plainTag (fst (snd f)) \<and> noDirectives (snd (snd f)))"
| "noDirectives (TSlice t) = noDirectives t"
| "noDirectives (TArray n t) = noDirectives t"
| "noDirectives (TMap k e) = (noDirectives k \<and> noDirectives e)"
| "noDirectives (TPtr t) = noDirectives t"
| "noDirectives t = True"


section \<open>The annotation functions and the directives\<close>

lemma Split_nonempty: "Split str c \<noteq> []"
  by (induction str) (auto split: list.splits)

lemma Split_no_sep: "x \<in> set (Split str c) \<Longrightarrow> c \<notin> set x"
proof (induction str arbitrary: x)
  case Nil
  then show ?case by simp
next
  case (Cons a str)
  then show ?case
    using Split_nonempty [of str c]
    by (cases "Split str c") (auto split: if_splits)
qed

lemma Split_Join:
  "xs \<noteq> [] \<Longrightarrow> \<forall>x \<in> set xs. c \<notin> set x \<Longrightarrow> Split (Join xs c) c = xs"
proof (induction xs c rule: Join.induct)
  case (1 c)
  then show ?case by simp
next
  case (2 x c)
  then have "c \<notin> set x" by simp
  then have "Split x c = [x]" by (induction x) auto
  then show ?case by simp
next
  case (3 x y r c)
  then have IH: "Split (Join (y # r) c) c = y # r" and x: "c \<notin> set x" by simp_all
  have "Split (x @ c # Join (y # r) c) c = x # Split (Join (y # r) c) c"
    using x by (induction x) (auto split: list.splits)
  then show ?case using IH by simp
qed

lemma Split_popVal:
  assumes "2 \<le> length (Split tag CHR '','')"
  shows "Split (popVal tag) CHR '','' = hd (Split tag CHR '','') # drop 2 (Split tag CHR '','')"
proof -
  let ?arr = "Split tag CHR '',''"
  have "\<forall>x \<in> set (hd ?arr # drop 2 ?arr). CHR '','' \<notin> set x"
    using Split_no_sep [of _ tag "CHR '',''"] assms
    by (cases ?arr) (auto dest: in_set_dropD)
  then have "Split (Join (hd ?arr # drop 2 ?arr) CHR '','') CHR '','' = hd ?arr # drop 2 ?arr"
    by (intro Split_Join) simp_all
  then show ?thesis
    using assms by (cases ?arr) (simp_all add: popVal_def Let_def)
qed

text \<open>
  Without a leading directive, slot \<open>k\<close> is token \<open>k\<close>, popping keeps slot 0 and moves
  every slot from 2 on down by one, and the value function is resolved from slot 1.
\<close>

lemma selector_without_directives:
  assumes "Split tag CHR '','' = (c # w) # r" and "c \<noteq> prePfx"
  shows "selector tag k = Ret (if k \<le> length r then ((c # w) # r) ! k else [])"
  using assms by (auto simp: selector_def Let_def)

lemma popVal_without_directives:
  assumes "Split tag CHR '','' = (c # w) # y # r" and "c \<noteq> prePfx"
  shows "selector (popVal tag) 0 = selector tag 0"
    and "selector (popVal tag) (Suc k) = selector tag (Suc (Suc k))"
proof -
  have pop: "Split (popVal tag) CHR '','' = (c # w) # r"
    using Split_popVal [of tag] assms(1) by simp
  show "selector (popVal tag) 0 = selector tag 0"
    by (simp add: selector_without_directives [OF pop assms(2)]
        selector_without_directives [OF assms])
  show "selector (popVal tag) (Suc k) = selector tag (Suc (Suc k))"
    by (simp add: selector_without_directives [OF pop assms(2)]
        selector_without_directives [OF assms])
qed

text \<open>An empty first token, followed by another token, makes both functions panic.\<close>

lemma empty_first_token_panics:
  assumes "Split tag CHR '','' = [] # y # r"
  shows "preprocess H tag s = Panic" and "selector tag 0 = Panic"
  using assms by (simp_all add: preprocess_def selector_def)

text \<open>
  The memo table of \<open>valFunc\<close> only ever holds what \<open>valFunc\<close> computes: with the table or
  without it the result is the same, which is why the decoder above calls \<open>valFunc\<close>.
\<close>

lemma valFunc_cached_transparent:
  assumes "cache_ok vfCache"
  shows "fst (valFunc_cached vfCache tag) = valFunc tag"
    and "cache_ok (snd (valFunc_cached vfCache tag))"
  using assms
  by (auto simp: valFunc_cached_def cache_ok_def split: option.splits result.splits)

lemma cache_ok_empty: "cache_ok Map.empty"
  by (simp add: cache_ok_def)

text \<open>
  C1. Popping an annotation is claimed to remove selector slot 1 and to leave slot 0,
  the primary selector, as it is, also behind leading directives. \<open>selector\<close> counts the
  slots behind the directives; \<open>popVal\<close> drops the token at index 1 of the tag. On
  \<open>!Parent,a,[k],[v]\<close> slot 0 is \<open>a\<close> and slot 1 is \<open>[k]\<close>, and popping drops \<open>a\<close>: the primary
  selector of the popped annotation is \<open>[k]\<close>.
\<close>

theorem popVal_drops_primary_selector:
  "selector ''!Parent,a,[k],[v]'' 0 = Ret ''a'' \<and>
   selector ''!Parent,a,[k],[v]'' 1 = Ret ''[k]'' \<and>
   popVal ''!Parent,a,[k],[v]'' = ''!Parent,[k],[v]'' \<and>
   selector (popVal ''!Parent,a,[k],[v]'') 0 = Ret ''[k]''"
  by (simp add: selector_def popVal_def prePfx_def)

text \<open>
  C2. The value function is claimed to be resolved from selector slot 1, the second
  selector behind the directives. \<open>valFunc\<close> reads the token at index 1 of the tag: on
  \<open>!Parent,a,html\<close> slot 1 is \<open>html\<close>, the token read is \<open>a\<close>, and the result is the text
  extraction.
\<close>

theorem valFunc_ignores_directives:
  "selector ''!Parent,a,html'' 1 = Ret ''html'' \<and> valFunc ''!Parent,a,html'' = Ret textVal"
  by (simp add: selector_def valFunc_def prePfx_def)

text \<open>
  C8. An annotation whose primary selector is empty, such as \<open>,[bang]\<close>, is claimed to
  leave the selection as it is and to be decoded without a failure. Both \<open>preprocess\<close>
  and \<open>selector\<close> read the first byte of the empty token and panic, and so does the
  decoding of a record when it comes to a field with that annotation.
\<close>

theorem empty_primary_selector_panics:
  "preprocess H '',[bang]'' s = Panic \<and> selector '',[bang]'' 0 = Panic \<and>
   unmarshalStruct H s sty ((name, '',[bang]'', fty) # fs) (v # vs) = Panic"
  by (simp add: preprocess_def selector_def unmarshalStruct.simps ignoreTag_def)

section \<open>Key search\<close>

lemma generation_Suc: "generation s (Suc k) = Children (generation s k)"
  by (simp add: generation_def)

lemma Children_empty: "Nodes s = [] \<Longrightarrow> Nodes (Children s) = []"
  by (simp add: Children_def pushStack_def mapNodes_def)

lemma Filter_nonempty: "Length (Filter H s q) \<noteq> 0 \<Longrightarrow> Length s \<noteq> 0"
  by (auto simp: Length_def Filter_def pushStack_def)

lemma loop_reaches_key_generation:
  assumes hit: "Length (Filter H (generation s k) q) \<noteq> 0"
    and miss: "\<forall>j<k. Length (Filter H (generation s j) q) = 0"
  shows "j \<le> k \<Longrightarrow> childrenUntilMatch_loop H q (generation s (k - j)) = generation s k"
proof (induction j)
  case 0
  show ?case using hit by (simp add: childrenUntilMatch_loop.simps [of H q "generation s k"])
next
  case (Suc j)
  then have lt: "k - Suc j < k" and eq: "Suc (k - Suc j) = k - j" by simp_all
  have nonempty: "Length (generation s i) \<noteq> 0" if "i \<le> k" for i
    using that
  proof (induction "k - i" arbitrary: i)
    case 0
    then show ?case using Filter_nonempty [OF hit] by simp
  next
    case (Suc d)
    then have "Length (generation s (Suc i)) \<noteq> 0" by simp
    then show ?case
      using Children_empty [of "generation s i"] by (auto simp: generation_Suc Length_def)
  qed
  have "childrenUntilMatch_loop H q (generation s (k - Suc j))
      = childrenUntilMatch_loop H q (Children (generation s (k - Suc j)))"
    using miss lt nonempty [of "k - Suc j"]
    by (subst childrenUntilMatch_loop.simps) simp
  also have "\<dots> = childrenUntilMatch_loop H q (generation s (k - j))"
    using eq generation_Suc [of s "k - Suc j"] by simp
  finally show ?case using Suc by simp
qed

lemma loop_exhausts:
  "\<forall>j. Length (Filter H ((Children ^^ j) x) q) = 0 \<Longrightarrow>
     Length (childrenUntilMatch_loop H q x) = 0"
proof (induction H q x rule: childrenUntilMatch_loop.induct)
  case (1 H q s)
  show ?case
  proof (cases "Length s \<noteq> 0 \<and> Length (Filter H s q) = 0")
    case True
    have "\<forall>j. Length (Filter H ((Children ^^ j) (Children s)) q) = 0"
    proof
      fix j
      show "Length (Filter H ((Children ^^ j) (Children s)) q) = 0"
        using "1.prems" [rule_format, of "Suc j"] by (simp add: funpow_swap1)
    qed
    then show ?thesis
      using "1.IH" True by (subst childrenUntilMatch_loop.simps) simp
  next
    case False
    moreover have "Length (Filter H s q) = 0" using "1.prems" [rule_format, of 0] by simp
    ultimately show ?thesis by (subst childrenUntilMatch_loop.simps) simp
  qed
qed

text \<open>
  C3. The key search of a map goes down the generations of children of the selection.
  The first generation that has a node matching the key selector is filtered to the
  nodes that match, and is the result; when no generation has a match, the result is
  the selection the search started from. (\<open>unmarshalMap\<close> calls the search with
  \<open>selector 1\<close> of the annotation.)
\<close>

theorem childrenUntilMatch_key_generation:
  "(Length (Filter H (generation s k) q) \<noteq> 0 \<and>
      (\<forall>j<k. Length (Filter H (generation s j) q) = 0)
    \<longrightarrow> childrenUntilMatch H s q = Filter H (generation s k) q) \<and>
   ((\<forall>j. Length (Filter H (generation s j) q) = 0) \<longrightarrow> childrenUntilMatch H s q = s)"
proof (intro conjI impI)
  assume a: "Length (Filter H (generation s k) q) \<noteq> 0 \<and>
      (\<forall>j<k. Length (Filter H (generation s j) q) = 0)"
  then have "childrenUntilMatch_loop H q (generation s (k - k)) = generation s k"
    using loop_reaches_key_generation [of H s k q k] by simp
  then have "childrenUntilMatch_loop H q (Children s) = generation s k"
    by (simp add: generation_def)
  then show "childrenUntilMatch H s q = Filter H (generation s k) q"
    using a Filter_nonempty [of H "generation s k" q] by (simp add: childrenUntilMatch_def Let_def)
next
  assume a: "\<forall>j. Length (Filter H (generation s j) q) = 0"
  have "\<forall>j. Length (Filter H ((Children ^^ j) (Children s)) q) = 0"
  proof
    fix j
    show "Length (Filter H ((Children ^^ j) (Children s)) q) = 0"
      using a [rule_format, of j] by (simp add: generation_def funpow_swap1)
  qed
  then have "Length (childrenUntilMatch_loop H q (Children s)) = 0"
    by (rule loop_exhausts)
  then show "childrenUntilMatch H s q = s" by (simp add: childrenUntilMatch_def Let_def)
qed

lemma leaf_generations: "Nodes (generation (Sel [tx 3 ''k1''] None) j) = []"
  by (induction j) (simp_all add: generation_def Children_def pushStack_def mapNodes_def
      elementKids_def tx_def appendWithoutDuplicates_def)

theorem childrenUntilMatch_key_generation_witness:
  "childrenUntilMatch (exampleHost doc2) (Sel [doc2] None) ''a''
     = Filter (exampleHost doc2) (generation (Sel [doc2] None) (Suc 0)) ''a'' \<and>
   Nodes (childrenUntilMatch (exampleHost doc2) (Sel [doc2] None) ''a'')
     = [el 2 ''a'' [] [tx 3 ''k1''], el 4 ''a'' [] [tx 5 ''k2'']] \<and>
   childrenUntilMatch (exampleHost doc2) (Sel [tx 3 ''k1''] None) ''a'' = Sel [tx 3 ''k1''] None"
proof -
  let ?H = "exampleHost doc2"
  have g0: "Nodes (generation (Sel [doc2] None) 0) = [el 1 ''span'' [] [el 2 ''a'' [] [tx 3 ''k1''], el 4 ''a'' [] [tx 5 ''k2''], el 6 ''b'' [] [tx 7 ''x'']]]"
    by (simp add: generation_def Children_def pushStack_def mapNodes_def
      elementKids_def tx_def el_def doc2_def appendWithoutDuplicates_def)
  have g1: "Nodes (generation (Sel [doc2] None) (Suc 0)) = [el 2 ''a'' [] [tx 3 ''k1''], el 4 ''a'' [] [tx 5 ''k2''], el 6 ''b'' [] [tx 7 ''x'']]"
    by (simp add: generation_def Children_def pushStack_def mapNodes_def
      elementKids_def tx_def el_def doc2_def appendWithoutDuplicates_def)
  have h1: "Length (Filter ?H (generation (Sel [doc2] None) (Suc 0)) ''a'') \<noteq> 0"
    by (simp add: Length_def Filter_def pushStack_def g1 exampleHost_def el_def)
  have h2: "\<forall>j<Suc 0. Length (Filter ?H (generation (Sel [doc2] None) j) ''a'') = 0"
    by (simp add: Length_def Filter_def pushStack_def g0 exampleHost_def el_def)
  have h3: "\<forall>j. Length (Filter ?H (generation (Sel [tx 3 ''k1''] None) j) ''a'') = 0"
    by (simp add: Length_def Filter_def pushStack_def leaf_generations)
  have a: "childrenUntilMatch ?H (Sel [doc2] None) ''a''
     = Filter ?H (generation (Sel [doc2] None) (Suc 0)) ''a''"
    using childrenUntilMatch_key_generation [of ?H "Sel [doc2] None" "Suc 0" "''a''"] h1 h2 by blast
  have b: "childrenUntilMatch ?H (Sel [tx 3 ''k1''] None) ''a'' = Sel [tx 3 ''k1''] None"
    using childrenUntilMatch_key_generation [of ?H "Sel [tx 3 ''k1''] None" 0 "''a''"] h3 by blast
  have c: "Nodes (Filter ?H (generation (Sel [doc2] None) (Suc 0)) ''a'') = [el 2 ''a'' [] [tx 3 ''k1''], el 4 ''a'' [] [tx 5 ''k2'']]"
    by (simp add: Filter_def pushStack_def g1 exampleHost_def el_def)
  show ?thesis using a b c by simp
qed

section \<open>Records\<close>

lemma unmarshalStruct_Cons:
  "unmarshalStruct H s sty (f # fs) (v # vs) =
     (case unmarshalStruct_field H s sty f v of
        Panic \<Rightarrow> Panic
      | Ret (v', Some e) \<Rightarrow> Ret (v' # vs, Some e)
      | Ret (v', None) \<Rightarrow>
          (case unmarshalStruct H s sty fs vs of
             Panic \<Rightarrow> Panic
           | Ret (vs', e) \<Rightarrow> Ret (v' # vs', e)))"
proof (cases "fst (snd f) = ignoreTag")
  case True
  then show ?thesis
    by (simp add: unmarshalStruct.simps unmarshalStruct_field_def)
next
  case False
  note notign = this
  show ?thesis
  proof (cases "fst (snd f) = [] \<and> \<not> isUnmarshaler (indirect (snd (snd f)) v)")
    case True
    then show ?thesis
      using notign
      by (cases "indirect (snd (snd f)) v")
         (simp_all add: unmarshalStruct.simps unmarshalStruct_field_def Let_def)
  next
    case False
    then have noskip: "(fst (snd f) = [] \<and> \<not> isUnmarshaler (indirect (snd (snd f)) v)) = False"
      by blast
    show ?thesis
    proof (cases "preprocess H (fst (snd f)) s")
      case Panic
      then show ?thesis using notign
        by (simp add: unmarshalStruct.simps unmarshalStruct_field_def Let_def noskip)
    next
      case (Ret sel0)
      note r0 = this
      show ?thesis
      proof (cases "if fst (snd f) \<noteq> [] then (case selector (fst (snd f)) 0 of Panic \<Rightarrow> Panic
                 | Ret selStr \<Rightarrow> Ret (Find H sel0 selStr)) else Ret sel0")
        case Panic
        then show ?thesis using notign r0
          by (simp add: unmarshalStruct.simps unmarshalStruct_field_def Let_def noskip)
      next
        case (Ret sel1)
        note r1 = this
        show ?thesis
        proof (cases "unmarshalByType H sel1 (snd (snd f)) v (fst (snd f))")
          case Panic
          then show ?thesis using notign r0 r1
            by (simp add: unmarshalStruct.simps unmarshalStruct_field_def Let_def noskip)
        next
          case (Ret p)
          obtain v' e where p: "p = (v', e)" by (cases p)
          show ?thesis using notign r0 r1 Ret
            by (cases e)
               (simp_all add: p unmarshalStruct.simps unmarshalStruct_field_def Let_def noskip)
        qed
      qed
    qed
  qed
qed

lemma unmarshalStruct_append:
  "length pre = length vpre \<Longrightarrow>
   unmarshalStruct H s sty (pre @ rest) (vpre @ vrest) =
     (case unmarshalStruct H s sty pre vpre of
        Panic \<Rightarrow> Panic
      | Ret (a, Some e) \<Rightarrow> Ret (a @ vrest, Some e)
      | Ret (a, None) \<Rightarrow>
          (case unmarshalStruct H s sty rest vrest of
             Panic \<Rightarrow> Panic
           | Ret (b, e) \<Rightarrow> Ret (a @ b, e)))"
proof (induction pre arbitrary: vpre)
  case Nil
  then show ?case
    by (simp add: unmarshalStruct.simps split: result.splits prod.splits)
next
  case (Cons f pre)
  then obtain v vs where vpre: "vpre = v # vs" and len: "length pre = length vs"
    by (cases vpre) auto
  note IH = Cons.IH [OF len]
  show ?case
    unfolding vpre
    by (simp add: unmarshalStruct_Cons IH
        split: result.splits prod.splits option.splits)
qed

text \<open>
  C10. A field annotated \<open>!ignore\<close> is skipped: decoding a record that has such a field
  is decoding the fields before it and the fields after it, the field keeps the value
  it had, and no error comes from it. This holds for every type of the field, also
  for one that has a custom decoder.
\<close>

theorem ignored_field_is_skipped:
  "length vpre = length pre \<Longrightarrow>
   unmarshalStruct H s sty (pre @ (name, ''!ignore'', fty) # post) (vpre @ v # vpost) =
     (case unmarshalStruct H s sty pre vpre of
        Panic \<Rightarrow> Panic
      | Ret (a, Some e) \<Rightarrow> Ret (a @ v # vpost, Some e)
      | Ret (a, None) \<Rightarrow>
          (case unmarshalStruct H s sty post vpost of
             Panic \<Rightarrow> Panic
           | Ret (b, e) \<Rightarrow> Ret (a @ v # b, e)))"
proof -
  assume len: "length vpre = length pre"
  have one: "unmarshalStruct H s sty ((name, ''!ignore'', fty) # post) (v # vpost) =
      (case unmarshalStruct H s sty post vpost of
         Panic \<Rightarrow> Panic
       | Ret (b, e) \<Rightarrow> Ret (v # b, e))"
    by (simp add: unmarshalStruct.simps ignoreTag_def split: result.splits prod.splits)
  show ?thesis
    using unmarshalStruct_append [of pre vpre H s sty "(name, ''!ignore'', fty) # post" "v # vpost"] len
    by (simp add: one split: result.splits prod.splits option.splits)
qed

theorem ignored_field_is_skipped_witness:
  "length [VString []] = length [(''A'', ''a'', TString)] \<and>
   unmarshalStruct (exampleHost doc1) (docSel doc1) (TStruct [])
     ([(''A'', ''a'', TString)] @ (''B'', ''!ignore'', TUnmarshaler 0 TString) # [(''C'', ''b'', TString)])
     ([VString []] @ VString ''old'' # [VString []])
   = Ret ([VString ''k'', VString ''old'', VString ''sib''], None) \<and>
   unmarshalStruct (exampleHost doc1) (docSel doc1) (TStruct [])
     [(''B'', ''a'', TUnmarshaler 0 TString)] [VString ''old'']
   = Ret ([VString ''k''], None)"
proof -
  have a: "unmarshalStruct (exampleHost doc1) (docSel doc1) (TStruct [])
     [(''A'', ''a'', TString)] [VString []] = Ret ([VString ''k''], None)"
    by code_simp
  have b: "unmarshalStruct (exampleHost doc1) (docSel doc1) (TStruct [])
     [(''C'', ''b'', TString)] [VString []] = Ret ([VString ''sib''], None)"
    by code_simp
  have c: "unmarshalStruct (exampleHost doc1) (docSel doc1) (TStruct [])
     [(''B'', ''a'', TUnmarshaler 0 TString)] [VString ''old''] = Ret ([VString ''k''], None)"
    by code_simp
  show ?thesis
    using ignored_field_is_skipped [of "[VString []]" "[(''A'', ''a'', TString)]"
        "exampleHost doc1" "docSel doc1" "TStruct []" "''B''" "TUnmarshaler 0 TString"
        "[(''C'', ''b'', TString)]" "VString ''old''" "[VString []]"]
    by (simp add: a b c)
qed

section \<open>Maps\<close>

text \<open>
  \<open>unmarshalMap\<close> wants a key selector, slot 1 of the annotation; with one, it visits the
  nodes that the key search finds.
\<close>

lemma unmarshalMap_key_nodes:
  assumes "selector tag 1 = Ret q" and "q \<noteq> []"
  shows "unmarshalMap H s keyT eleT m tag =
     (case unmarshalMap_loop H keyT eleT tag (popVal tag) (Nodes (childrenUntilMatch H s q))
             (case m of None \<Rightarrow> [] | Some ps \<Rightarrow> ps) of
        Panic \<Rightarrow> Panic
      | Ret (m', Some err) \<Rightarrow>
          Ret (Some m', Some (CannotUnmarshalError typeConversionError
                                (Some (TMap keyT eleT)) (Some err) [] None))
      | Ret (m', None) \<Rightarrow> Ret (Some m', None))"
  using assms by (simp add: unmarshalMap.simps Let_def)

lemma unmarshalMap_missing_selector:
  assumes "selector tag 1 = Ret []"
  shows "unmarshalMap H s keyT eleT m tag =
     Ret (Some (case m of None \<Rightarrow> [] | Some ps \<Rightarrow> ps),
          Some (CannotUnmarshalError missingValueSelector (Some (TMap keyT eleT)) None [] None))"
  using assms by (simp add: unmarshalMap.simps)



text \<open>
  The closure stops the iteration with an error exactly when the key decode fails or,
  after a key decode without error, the value decode fails.
\<close>

lemma unmarshalMap_pair_failure:
  "unmarshalMap_pair H keyT eleT tag valTag n = Ret (Inl err) \<longleftrightarrow>
     (\<exists>newK e vf.
        unmarshalByType H (newSingleSelection n) (TPtr (TypeDeref keyT)) (newOf keyT) tag
          = Ret (newK, Some e) \<and>
        valFunc valTag = Ret vf \<and>
        err = CannotUnmarshalError mapKeyUnmarshalError (Some (TMap keyT eleT)) (Some e)
                (applyValFn H vf (newSingleSelection n)) (Some (KeyValue newK))) \<or>
     (\<exists>newK newV.
        unmarshalByType H (newSingleSelection n) (TPtr (TypeDeref keyT)) (newOf keyT) tag
          = Ret (newK, None) \<and>
        unmarshalByType H (newSingleSelection n) (TPtr (TypeDeref eleT)) (newOf eleT) valTag
          = Ret (newV, Some err))"
proof (cases "unmarshalByType H (newSingleSelection n) (TPtr (TypeDeref keyT)) (newOf keyT) tag")
  case Panic
  then show ?thesis by (simp add: unmarshalMap_pair_def)
next
  case (Ret p)
  obtain newK e where p: "p = (newK, e)" by (cases p)
  show ?thesis
  proof (cases e)
    case (Some e')
    then show ?thesis
      using Ret p by (cases "valFunc valTag") (auto simp: unmarshalMap_pair_def)
  next
    case None
    show ?thesis
    proof (cases "unmarshalByType H (newSingleSelection n) (TPtr (TypeDeref eleT)) (newOf eleT) valTag")
      case Panic
      then show ?thesis using Ret p None by (simp add: unmarshalMap_pair_def)
    next
      case (Ret r)
      obtain newV e2 where r: "r = (newV, e2)" by (cases r)
      show ?thesis
        using \<open>unmarshalByType H (newSingleSelection n) (TPtr (TypeDeref keyT)) (newOf keyT) tag = Ret p\<close>
          p None Ret r
        by (cases e2) (auto simp: unmarshalMap_pair_def split: result.splits)
    qed
  qed
qed



section \<open>Arrays\<close>

lemma unmarshalArray_loop_success:
  "length xs = n \<Longrightarrow>
   (\<exists>r. unmarshalArray_loop H s n eleT tag i xs = Ret (r, None)) =
   (\<forall>j. i \<le> j \<and> j < n \<longrightarrow>
      (\<exists>x'. unmarshalByType H (Eq s j) eleT (xs ! j) tag = Ret (x', None)))"
proof (induction "n - i" arbitrary: i xs)
  case 0
  then have "\<not> i < n" by simp
  then show ?case by (auto simp: unmarshalArray_loop.simps [of H s n eleT tag i xs])
next
  case (Suc d)
  then have i: "i < n" "i < length xs" by simp_all
  show ?case
  proof (cases "unmarshalByType H (Eq s i) eleT (xs ! i) tag")
    case Panic
    then have "\<not> (\<exists>r. unmarshalArray_loop H s n eleT tag i xs = Ret (r, None))"
      using i by (simp add: unmarshalArray_loop.simps [of H s n eleT tag i xs])
    moreover have "\<not> (\<exists>x'. unmarshalByType H (Eq s i) eleT (xs ! i) tag = Ret (x', None))"
      using Panic by simp
    ultimately show ?thesis using i by auto
  next
    case (Ret p)
    obtain x' e where p: "p = (x', e)" by (cases p)
    show ?thesis
    proof (cases e)
      case (Some err)
      then have "\<not> (\<exists>r. unmarshalArray_loop H s n eleT tag i xs = Ret (r, None))"
        using i Ret p by (simp add: unmarshalArray_loop.simps [of H s n eleT tag i xs])
      moreover have "\<not> (\<exists>x'. unmarshalByType H (Eq s i) eleT (xs ! i) tag = Ret (x', None))"
        using Ret p Some by simp
      ultimately show ?thesis using i by auto
    next
      case None
      have step: "unmarshalArray_loop H s n eleT tag i xs
          = unmarshalArray_loop H s n eleT tag (Suc i) (xs[i := x'])"
        using i Ret p None by (simp add: unmarshalArray_loop.simps [of H s n eleT tag i xs])
      have IH: "(\<exists>r. unmarshalArray_loop H s n eleT tag (Suc i) (xs[i := x']) = Ret (r, None)) =
          (\<forall>j. Suc i \<le> j \<and> j < n \<longrightarrow>
             (\<exists>y. unmarshalByType H (Eq s j) eleT (xs[i := x'] ! j) tag = Ret (y, None)))"
        using Suc.hyps(1) [of "Suc i" "xs[i := x']"] Suc.hyps(2) Suc.prems by simp
      have same: "\<And>j. Suc i \<le> j \<Longrightarrow> xs[i := x'] ! j = xs ! j" by simp
      have here: "\<exists>y. unmarshalByType H (Eq s i) eleT (xs ! i) tag = Ret (y, None)"
        using Ret p None by simp
      show ?thesis
        unfolding step IH
      proof
        assume a: "\<forall>j. Suc i \<le> j \<and> j < n \<longrightarrow>
             (\<exists>y. unmarshalByType H (Eq s j) eleT (xs[i := x'] ! j) tag = Ret (y, None))"
        show "\<forall>j. i \<le> j \<and> j < n \<longrightarrow>
             (\<exists>x'. unmarshalByType H (Eq s j) eleT (xs ! j) tag = Ret (x', None))"
        proof (intro allI impI)
          fix j assume j: "i \<le> j \<and> j < n"
          show "\<exists>x'. unmarshalByType H (Eq s j) eleT (xs ! j) tag = Ret (x', None)"
          proof (cases "j = i")
            case True
            then show ?thesis using here by simp
          next
            case False
            then have "Suc i \<le> j" using j by simp
            then show ?thesis using a j same [of j] by auto
          qed
        qed
      next
        assume a: "\<forall>j. i \<le> j \<and> j < n \<longrightarrow>
             (\<exists>x'. unmarshalByType H (Eq s j) eleT (xs ! j) tag = Ret (x', None))"
        show "\<forall>j. Suc i \<le> j \<and> j < n \<longrightarrow>
             (\<exists>y. unmarshalByType H (Eq s j) eleT (xs[i := x'] ! j) tag = Ret (y, None))"
          using a same by auto
      qed
    qed
  qed
qed

text \<open>
  C6, as stated: an array of length \<open>N\<close> is decoded with success if and only if the
  selection has exactly \<open>N\<close> nodes. With one node and an array of one \<open>bool\<close> the length is
  right and the decode fails, on the conversion of the element.
\<close>

theorem array_right_length_can_fail:
  "length (Nodes (Find (exampleHost doc1) (docSel doc1) ''a'')) = 1 \<and>
   unmarshalArray (exampleHost doc1) (Find (exampleHost doc1) (docSel doc1) ''a'') 1 TBool
     [VBool False] ''a'' =
   Ret ([VBool False],
        Some (CannotUnmarshalError typeConversionError (Some (TArray 1 TBool))
          (Some (CannotUnmarshalError typeConversionError (Some TBool)
             (Some (NumError ''ParseBool'' ''k'' ErrSyntax)) ''k'' None))
          [] (Some (Index 0))))"
  by code_simp

text \<open>
  C6, amended: for an array of length \<open>N\<close>, a selection that does not have exactly \<open>N\<close>
  nodes gives the length-mismatch error on that destination and leaves the array as
  it was; the decode succeeds if and only if the selection has exactly \<open>N\<close> nodes and
  the decode of every element \<open>j\<close> against node \<open>j\<close> succeeds.
\<close>

theorem unmarshalArray_length_and_elements:
  "length xs = n \<longrightarrow>
   (length (Nodes s) \<noteq> n \<longrightarrow>
      unmarshalArray H s n eleT xs tag =
        Ret (xs, Some (CannotUnmarshalError arrayLengthMismatch (Some (TArray n eleT)) None []
                         None))) \<and>
   ((\<exists>r. unmarshalArray H s n eleT xs tag = Ret (r, None)) =
      (length (Nodes s) = n \<and>
       (\<forall>j<n. \<exists>x'. unmarshalByType H (Eq s j) eleT (xs ! j) tag = Ret (x', None))))"
proof (intro impI conjI)
  assume "length xs = n" and "length (Nodes s) \<noteq> n"
  then show "unmarshalArray H s n eleT xs tag =
        Ret (xs, Some (CannotUnmarshalError arrayLengthMismatch (Some (TArray n eleT)) None []
                         None))"
    by (auto simp: unmarshalArray.simps)
next
  assume len: "length xs = n"
  show "(\<exists>r. unmarshalArray H s n eleT xs tag = Ret (r, None)) =
      (length (Nodes s) = n \<and>
       (\<forall>j<n. \<exists>x'. unmarshalByType H (Eq s j) eleT (xs ! j) tag = Ret (x', None)))"
  proof (cases "length (Nodes s) = n")
    case True
    then show ?thesis
      using unmarshalArray_loop_success [OF len, of H s eleT tag 0]
      by (auto simp: unmarshalArray.simps)
  next
    case False
    then show ?thesis by (auto simp: unmarshalArray.simps)
  qed
qed

theorem unmarshalArray_length_and_elements_witness:
  "unmarshalArray (exampleHost doc3) (Find (exampleHost doc3) (docSel doc3) ''a'') 2 TString
     [VString [], VString []] ''a'' =
   Ret ([VString [], VString []],
        Some (CannotUnmarshalError arrayLengthMismatch (Some (TArray 2 TString)) None [] None)) \<and>
   length (Nodes (Find (exampleHost doc3) (docSel doc3) ''a'')) = 3 \<and>
   (\<exists>x'. unmarshalByType (exampleHost doc3)
      (Eq (Find (exampleHost doc3) (docSel doc3) ''a'') 2) TString
      ([VString [], VString [], VString []] ! 2) ''a'' = Ret (x', None))"
proof -
  let ?H = "exampleHost doc3"
  let ?s = "Find ?H (docSel doc3) ''a''"
  have len: "length (Nodes ?s) \<noteq> 2" by code_simp
  have ok: "unmarshalArray ?H ?s 3 TString [VString [], VString [], VString []] ''a''
      = Ret ([VString ''k1'', VString ''k2'', VString ''k3''], None)"
    by code_simp
  have a: "unmarshalArray ?H ?s 2 TString [VString [], VString []] ''a'' =
      Ret ([VString [], VString []],
        Some (CannotUnmarshalError arrayLengthMismatch (Some (TArray 2 TString)) None [] None))"
    using unmarshalArray_length_and_elements [of "[VString [], VString []]" 2 ?s ?H TString "''a''"]
      len by simp
  have b: "length (Nodes ?s) = 3 \<and>
      (\<forall>j<3. \<exists>x'. unmarshalByType ?H (Eq ?s j) TString
         ([VString [], VString [], VString []] ! j) ''a'' = Ret (x', None))"
    using unmarshalArray_length_and_elements
      [of "[VString [], VString [], VString []]" 3 ?s ?H TString "''a''"] ok
    by simp
  have c: "\<exists>x'. unmarshalByType ?H (Eq ?s 2) TString
         ([VString [], VString [], VString []] ! 2) ''a'' = Ret (x', None)"
    using b [THEN conjunct2, rule_format, of 2] by simp
  show ?thesis using a b c by blast
qed

section \<open>Scalars\<close>





section \<open>What a decode reads\<close>

text \<open>
  The methods that a directive can call are the only way from a selection to nodes
  that are not below its own nodes. A decode that runs no directive gives the same
  result whatever these methods are.
\<close>

lemma Find_methods [simp]: "Find (H\<lparr>MethodByName := m\<rparr>) = Find H"
  by (simp add: fun_eq_iff Find_def)

lemma Filter_methods [simp]: "Filter (H\<lparr>MethodByName := m\<rparr>) = Filter H"
  by (simp add: fun_eq_iff Filter_def)

lemma Html_methods [simp]: "Html (H\<lparr>MethodByName := m\<rparr>) = Html H"
  by (auto simp: fun_eq_iff Html_def split: list.splits)

lemma applyValFn_methods [simp]: "applyValFn (H\<lparr>MethodByName := m\<rparr>) = applyValFn H"
  by (simp add: fun_eq_iff applyValFn_def split: valFn.splits)

lemma unmarshalLiteral_methods [simp]:
  "unmarshalLiteral (H\<lparr>MethodByName := m\<rparr>) = unmarshalLiteral H"
  by (simp add: fun_eq_iff unmarshalLiteral_def SetFloat_def split: ty.splits sum.splits)

lemma childrenUntilMatch_loop_methods:
  "childrenUntilMatch_loop (H\<lparr>MethodByName := m\<rparr>) q s = childrenUntilMatch_loop H q s"
proof (induction H q s rule: childrenUntilMatch_loop.induct)
  case (1 H q s)
  show ?case
    using "1.IH"
    by (simp add: childrenUntilMatch_loop.simps [of _ q s])
qed

lemma childrenUntilMatch_methods [simp]:
  "childrenUntilMatch (H\<lparr>MethodByName := m\<rparr>) = childrenUntilMatch H"
  by (simp add: fun_eq_iff childrenUntilMatch_def childrenUntilMatch_loop_methods Let_def)


lemma noDirectives_TypeDeref [simp]: "noDirectives (TypeDeref t) = noDirectives t"
  by (induction t rule: TypeDeref.induct) auto




lemma UnmarshalHTML_methods [simp]: "UnmarshalHTML (H\<lparr>MethodByName := m\<rparr>) = UnmarshalHTML H"
  by simp






section \<open>Custom decoders\<close>

text \<open>
  A destination whose type, or the type it points to, has a custom decoder is handed
  to that decoder, with the nodes of the selection, before any dispatch on its shape.
\<close>

lemma custom_decoder_takes_precedence:
  "unmarshalByType H s (TUnmarshaler c u) v tag =
     (case UnmarshalHTML H c (Nodes s) v of (v', err) \<Rightarrow> Ret (v', wrapUnmErr err None))"
  "unmarshalByType H s (TPtr (TUnmarshaler c u)) (VPtr (Some v)) tag =
     (case UnmarshalHTML H c (Nodes s) v of
        (v', err) \<Rightarrow> Ret (VPtr (Some v'), wrapUnmErr err None))"
  "unmarshalByType H s (TPtr (TUnmarshaler c u)) (VPtr None) tag =
     (case UnmarshalHTML H c (Nodes s) (Zero u) of
        (v', err) \<Rightarrow> Ret (VPtr (Some v'), wrapUnmErr err None))"
  by (simp_all add: unmarshalByType.simps indirect_def)

text \<open>
  The same through any number of pointers that are not nil, and through such pointers
  that end in a nil pointer to the type itself.
\<close>

lemma indirect_loop_finds_decoder:
  "indirect_loop ((TPtr ^^ Suc k) (TUnmarshaler c u)) (rewrap (Suc k) v) = IUnmarshaler c v (Suc k)"
proof (induction k)
  case 0
  show ?case by simp
next
  case (Suc k)
  have "implements (TPtr ((TPtr ^^ Suc k) (TUnmarshaler c u))) = None" by simp
  then show ?case using Suc by simp
qed

lemma indirect_loop_allocates_last_level:
  "indirect_loop ((TPtr ^^ Suc k) (TUnmarshaler c u)) (rewrap k (VPtr None))
     = IUnmarshaler c (Zero u) (Suc k)"
proof (induction k)
  case 0
  show ?case by simp
next
  case (Suc k)
  have "implements (TPtr ((TPtr ^^ Suc k) (TUnmarshaler c u))) = None" by simp
  then show ?case using Suc by simp
qed

lemma custom_decoder_at_depth:
  "unmarshalByType H s ((TPtr ^^ k) (TUnmarshaler c u)) (rewrap k v) tag =
     (case UnmarshalHTML H c (Nodes s) v of
        (v', err) \<Rightarrow> Ret (rewrap k v', wrapUnmErr err None))"
  "unmarshalByType H s ((TPtr ^^ Suc k) (TUnmarshaler c u)) (rewrap k (VPtr None)) tag =
     (case UnmarshalHTML H c (Nodes s) (Zero u) of
        (v', err) \<Rightarrow> Ret (rewrap (Suc k) v', wrapUnmErr err None))"
proof -
  have a: "indirect ((TPtr ^^ k) (TUnmarshaler c u)) (rewrap k v) = IUnmarshaler c v k"
  proof (cases k)
    case 0
    then show ?thesis by (simp add: indirect_def)
  next
    case (Suc j)
    then show ?thesis
      using indirect_loop_finds_decoder [of j c u v] by (simp add: indirect_def)
  qed
  have b: "indirect ((TPtr ^^ Suc k) (TUnmarshaler c u)) (rewrap k (VPtr None))
      = IUnmarshaler c (Zero u) (Suc k)"
    using indirect_loop_allocates_last_level [of k c u] by (simp add: indirect_def)
  show "unmarshalByType H s ((TPtr ^^ k) (TUnmarshaler c u)) (rewrap k v) tag =
     (case UnmarshalHTML H c (Nodes s) v of
        (v', err) \<Rightarrow> Ret (rewrap k v', wrapUnmErr err None))"
    by (simp add: unmarshalByType.simps [of H s _ _ tag] a)
  show "unmarshalByType H s ((TPtr ^^ Suc k) (TUnmarshaler c u)) (rewrap k (VPtr None)) tag =
     (case UnmarshalHTML H c (Nodes s) (Zero u) of
        (v', err) \<Rightarrow> Ret (rewrap (Suc k) v', wrapUnmErr err None))"
    by (simp add: unmarshalByType.simps [of H s _ _ tag] b del: funpow.simps rewrap.simps)
qed

text \<open>
  \<open>indirect\<close> never returns a value whose type has a custom decoder: the dispatch on the
  shape is not reached for such a type.
\<close>

lemma implements_None: "implements (TPtr t) = None \<Longrightarrow> t \<noteq> TUnmarshaler c u"
  by (cases t) auto

lemma indirect_loop_no_decoder_left:
  "indirect_loop ty v = IValue t x k \<Longrightarrow> isPtr ty \<Longrightarrow> t \<noteq> TUnmarshaler c u"
proof (induction ty arbitrary: v k)
  case (TPtr u')
  show ?case
  proof (cases v)
    case (VPtr p)
    with TPtr.prems obtain e where none: "implements (TPtr u') = None"
      and "deeper (indirect_loop u' e) = IValue t x k"
      by (auto simp: Let_def split: if_splits option.splits)
    then obtain k' where r: "indirect_loop u' e = IValue t x k'"
      using deeper_IValue by blast
    show ?thesis
    proof (cases "isPtr u'")
      case True
      then show ?thesis using TPtr.IH [OF r] by simp
    next
      case False
      then have "t = u'" using r by (simp add: indirect_loop_nonptr)
      then show ?thesis using implements_None [OF none] by simp
    qed
  qed (use TPtr.prems in auto)
qed auto

lemma indirect_no_decoder_left: "indirect ty v \<noteq> IValue (TUnmarshaler c u) x k"
proof
  assume a: "indirect ty v = IValue (TUnmarshaler c u) x k"
  show False
  proof (cases "isPtr ty")
    case True
    then have "indirect_loop ty v = IValue (TUnmarshaler c u) x k"
      using a by (simp add: indirect_def)
    then show ?thesis using indirect_loop_no_decoder_left True by blast
  next
    case False
    then obtain k' where "indirect_loop (TPtr ty) (VPtr (Some v)) = IValue (TUnmarshaler c u) x k'"
      using a unAddr_IValue by (fastforce simp: indirect_def)
    moreover have "isPtr (TPtr ty)" by simp
    ultimately show ?thesis using indirect_loop_no_decoder_left by blast
  qed
qed

lemma UnmarshalSelection_custom_decoder:
  "UnmarshalSelection H s (TPtr (TUnmarshaler c u)) (VPtr (Some v)) =
     (case UnmarshalHTML H c (Nodes s) v of
        (v', err) \<Rightarrow> Ret (VPtr (Some v'), wrapUnmErr err None))"
  by (simp add: UnmarshalSelection_def indirect_def)

text \<open>
  C5. The custom decoder is claimed to be invoked at any depth of pointer
  indirection. A nil pointer to a pointer to a type with a custom decoder (the zero
  value of a field of type \<open>**T\<close>) makes \<open>indirect\<close> panic, where it sets the pointer to a
  new value of the wrong type: the decoder is not invoked.
\<close>

theorem nil_pointer_to_pointer_panics:
  "unmarshalByType H s (TPtr (TPtr (TUnmarshaler c u))) (VPtr None) tag = Panic \<and>
   unmarshalStruct H s sty [(name, ''a'', TPtr (TPtr (TUnmarshaler c u)))] [VPtr None] = Panic"
  by (simp add: unmarshalByType.simps unmarshalStruct.simps indirect_def ignoreTag_def
      preprocess_def selector_def prePfx_def)

end
